theory Spec2Isabelle
  imports Main
begin

section \<open>JavaScript values used by the sources\<close>

text \<open>
  Strings are lists of code units. An object reference is an index into a store
  (a list of objects); allocating an object appends it to the store, so the
  reference of a new object is the length of the store before the allocation.
\<close>

type_synonym ref = nat

definition alloc :: "'a list \<Rightarrow> 'a \<Rightarrow> ref \<times> 'a list" where
  "alloc store obj = (length store, store @ [obj])"

text \<open>\<^verbatim>\<open>s[i]\<close> on a string: the code unit at \<open>i\<close>, \<^verbatim>\<open>undefined\<close> out of range.\<close>

definition js_index :: "string \<Rightarrow> int \<Rightarrow> char option" where
  "js_index s i = (if 0 \<le> i \<and> i < int (length s) then Some (s ! nat i) else None)"

text \<open>\<^verbatim>\<open>s.slice(start, end)\<close>: both arguments optional, negative values count from the end.\<close>

definition slice :: "string \<Rightarrow> int option \<Rightarrow> int option \<Rightarrow> string" where
  "slice s start fin =
     (let len = int (length s);
          rs = (case start of None \<Rightarrow> 0 | Some a \<Rightarrow> a);
          k = (if rs < 0 then max (len + rs) 0 else min rs len);
          re = (case fin of None \<Rightarrow> len | Some b \<Rightarrow> b);
          e = (if re < 0 then max (len + re) 0 else min re len)
      in take (nat (e - k)) (drop (nat k) s))"

definition startsWith :: "string \<Rightarrow> string \<Rightarrow> bool" where
  "startsWith s t = (take (length t) s = t)"

definition endsWith :: "string \<Rightarrow> string \<Rightarrow> bool" where
  "endsWith s t = (length t \<le> length s \<and> drop (length s - length t) s = t)"

section \<open>lookup/lk-word.ts\<close>

text \<open>
  Modelled from the spec: the enumerations \<^verbatim>\<open>CapType\<close> and \<^verbatim>\<open>CompoundPos\<close> of constants.ts,
  which is not among the sources: no capitals, initial capital, all capitals and the two
  mixed kinds; the first, a middle and the last slot of a compound.
\<close>

datatype CapType = NO | INIT | ALL | HUH | HUHINIT

datatype CompoundPos = BEGIN | MIDDLE | END

text \<open>
  The handle holds references to the rule set and to the dictionary; no method reads
  through them, so their types are parameters.
\<close>

record ('aff, 'dic) LKWord =
  aff :: 'aff
  dic :: 'dic
  word :: string
  type :: CapType
  pos :: "CompoundPos option"

definition LKWord_to :: "('aff, 'dic) LKWord \<Rightarrow> string \<Rightarrow> CapType option \<Rightarrow> ('aff, 'dic) LKWord" where
  "LKWord_to this w captype =
     \<lparr>aff = aff this, dic = dic this, word = w,
      type = (case captype of None \<Rightarrow> type this | Some c \<Rightarrow> c), pos = pos this\<rparr>"

definition LKWord_shift :: "('aff, 'dic) LKWord \<Rightarrow> CompoundPos \<Rightarrow> ('aff, 'dic) LKWord" where
  "LKWord_shift this p =
     \<lparr>aff = aff this, dic = dic this, word = word this, type = type this, pos = Some p\<rparr>"

definition LKWord_slice :: "('aff, 'dic) LKWord \<Rightarrow> int option \<Rightarrow> int option \<Rightarrow> ('aff, 'dic) LKWord" where
  "LKWord_slice this start fin = LKWord_to this (slice (word this) start fin) None"

definition LKWord_add :: "('aff, 'dic) LKWord \<Rightarrow> string + ('aff, 'dic) LKWord \<Rightarrow> ('aff, 'dic) LKWord" where
  "LKWord_add this str =
     (let s = (case str of Inl s \<Rightarrow> s | Inr w \<Rightarrow> word w)
      in LKWord_to this (word this @ s) None)"

definition LKWord_at :: "('aff, 'dic) LKWord \<Rightarrow> int \<Rightarrow> char option" where
  "LKWord_at this n =
     (if n < 0 then js_index (word this) (int (length (word this)) + n)
      else js_index (word this) n)"

definition LKWord_length :: "('aff, 'dic) LKWord \<Rightarrow> nat" where
  "LKWord_length this = length (word this)"

section \<open>Affix rules (aff/affix.ts is not among the sources)\<close>

type_synonym Flag = string

text \<open>
  Modelled from the spec: the classes \<^verbatim>\<open>Prefix\<close> and \<^verbatim>\<open>Suffix\<close> of aff/affix.ts. A rule
  exposes an applicability predicate against a stem (\<^verbatim>\<open>relevant\<close>), the text it strips,
  the text it adds, its cross-product eligibility and the flag set it contributes. Rule
  objects are kept in a store and named by reference, since the sources collect them in
  sets that compare objects by identity.
\<close>

record Affix =
  strip :: string
  add :: string
  crossproduct :: bool
  affix_flags :: "Flag list"
  relevant :: "string \<Rightarrow> bool"

text \<open>Modelled from the spec: \<^verbatim>\<open>affix.has(flag)\<close>, the rule carries the flag.\<close>

definition Affix_has :: "Affix \<Rightarrow> Flag \<Rightarrow> bool" where
  "Affix_has a flag = (flag \<in> set (affix_flags a))"

section \<open>lookup/forms.ts\<close>

record AffixFormOpts =
  prefix :: "ref option"
  suffix :: "ref option"
  prefix2 :: "ref option"
  suffix2 :: "ref option"
  inDictionary :: "ref option"

record AffixForm = AffixFormOpts +
  form_text :: string
  form_stem :: string

text \<open>
  The argument of \<^verbatim>\<open>replace\<close>: \<^verbatim>\<open>{ text?: string | LKWord; stem?: string } & AffixFormOpts\<close>.
  Every property is optional: the object either does not name it, or names it with a
  value, which may be \<^verbatim>\<open>undefined\<close>. Reading a property that is not named gives
  \<^verbatim>\<open>undefined\<close>.
\<close>

datatype 'a property = Absent | Present "'a option"

fun prop_read :: "'a property \<Rightarrow> 'a option" where
  "prop_read Absent = None"
| "prop_read (Present v) = v"

record ('aff, 'dic) ReplaceOpts =
  o_text :: "(string + ('aff, 'dic) LKWord) property"
  o_stem :: "string property"
  o_prefix :: "ref property"
  o_suffix :: "ref property"
  o_prefix2 :: "ref property"
  o_suffix2 :: "ref property"
  o_inDictionary :: "ref property"

definition AffixForm_new ::
  "string + ('aff, 'dic) LKWord \<Rightarrow> string option \<Rightarrow> AffixFormOpts \<Rightarrow> AffixForm" where
  "AffixForm_new txt stm opts =
     (let t = (case txt of Inl s \<Rightarrow> s | Inr w \<Rightarrow> word w)
      in \<lparr>prefix = prefix opts, suffix = suffix opts, prefix2 = prefix2 opts,
          suffix2 = suffix2 opts, inDictionary = inDictionary opts,
          form_text = t, form_stem = (case stm of None \<Rightarrow> t | Some s \<Rightarrow> s)\<rparr>)"

text \<open>\<^verbatim>\<open>a ?? b\<close> on an optional value.\<close>

definition nullish :: "'a option \<Rightarrow> 'a option \<Rightarrow> 'a option" where
  "nullish a b = (case a of None \<Rightarrow> b | Some v \<Rightarrow> Some v)"

text \<open>
  \<^verbatim>\<open>replace\<close> allocates the new form in the store of forms and returns its reference;
  \<open>this\<close> is the reference of the receiver.
\<close>

definition AffixForm_replace ::
  "AffixForm list \<Rightarrow> ref \<Rightarrow> ('aff, 'dic) ReplaceOpts \<Rightarrow> ref \<times> AffixForm list" where
  "AffixForm_replace store this opts =
     (let h = store ! this
      in alloc store
           (AffixForm_new
              (case prop_read (o_text opts) of None \<Rightarrow> Inl (form_text h) | Some t \<Rightarrow> t)
              (Some (case prop_read (o_stem opts) of None \<Rightarrow> form_stem h | Some s \<Rightarrow> s))
              \<lparr>prefix = nullish (prop_read (o_prefix opts)) (prefix h),
               suffix = nullish (prop_read (o_suffix opts)) (suffix h),
               prefix2 = nullish (prop_read (o_prefix2 opts)) (prefix2 h),
               suffix2 = nullish (prop_read (o_suffix2 opts)) (suffix2 h),
               inDictionary = nullish (prop_read (o_inDictionary opts)) (inDictionary h)\<rparr>))"

definition hasAffixes :: "AffixForm \<Rightarrow> bool" where
  "hasAffixes this = (suffix this \<noteq> None \<or> prefix this \<noteq> None)"

definition affixes :: "AffixForm \<Rightarrow> ref list" where
  "affixes this =
     map the (filter (\<lambda>affix. affix \<noteq> None) [prefix2 this, prefix this, suffix this, suffix2 this])"

definition AffixForm_has :: "Affix list \<Rightarrow> AffixForm \<Rightarrow> Flag \<Rightarrow> bool" where
  "AffixForm_has rules this flag =
     (if \<not> hasAffixes this then False
      else list_all (\<lambda>affix. Affix_has (rules ! affix) flag) (affixes this))"

section \<open>More JavaScript library functions\<close>

text \<open>\<^verbatim>\<open>s.includes(t)\<close>.\<close>

fun js_includes :: "string \<Rightarrow> string \<Rightarrow> bool" where
  "js_includes [] t = (t = [])"
| "js_includes (c # cs) t = (startsWith (c # cs) t \<or> js_includes cs t)"

text \<open>
  \<^verbatim>\<open>s.split(sep)\<close> for a string separator: \<open>split_sep\<close> scans the rest of the string
  with the piece read so far; an empty separator splits into code units.
\<close>

fun split_sep :: "string \<Rightarrow> string \<Rightarrow> string \<Rightarrow> string list" where
  "split_sep sep piece [] = [piece]"
| "split_sep sep piece (c # cs) =
     (if startsWith (c # cs) sep
      then piece # split_sep sep [] (drop (length sep - 1) cs)
      else split_sep sep (piece @ [c]) cs)"

definition js_split :: "string \<Rightarrow> string \<Rightarrow> string list" where
  "js_split s sep = (if sep = [] then map (\<lambda>c. [c]) s else split_sep sep [] s)"

text \<open>\<^verbatim>\<open>s.replaceAll(pat, rep)\<close> for a non-empty string pattern.\<close>

fun replaceAll :: "string \<Rightarrow> string \<Rightarrow> string \<Rightarrow> string" where
  "replaceAll pat rep [] = []"
| "replaceAll pat rep (c # cs) =
     (if startsWith (c # cs) pat
      then rep @ replaceAll pat rep (drop (length pat - 1) cs)
      else c # replaceAll pat rep cs)"

text \<open>\<^verbatim>\<open>/^\d+$/.test(s)\<close> and \<^verbatim>\<open>parseInt(s)\<close> on such a string.\<close>

definition is_digit :: "char \<Rightarrow> bool" where
  "is_digit c = (c \<in> set ''0123456789'')"

definition is_digits :: "string \<Rightarrow> bool" where
  "is_digits s = (s \<noteq> [] \<and> list_all is_digit s)"

definition parseInt :: "string \<Rightarrow> nat" where
  "parseInt s = foldl (\<lambda>n c. 10 * n + (of_char c - 48)) 0 s"

text \<open>\<^verbatim>\<open>String(n)\<close> for an array index.\<close>

fun show_nat :: "nat \<Rightarrow> string" where
  "show_nat n =
     (if n < 10 then [char_of (48 + n)] else show_nat (n div 10) @ [char_of (48 + n mod 10)])"

text \<open>\<^verbatim>\<open>xs[i]\<close> on an array: \<^verbatim>\<open>undefined\<close> out of range.\<close>

definition js_get :: "'a list \<Rightarrow> int \<Rightarrow> 'a option" where
  "js_get xs i = (if 0 \<le> i \<and> i < int (length xs) then Some (xs ! nat i) else None)"

text \<open>
  A \<^verbatim>\<open>Set\<close> is the list of its elements in insertion order; \<^verbatim>\<open>new Set(iterable)\<close> adds
  the elements one by one.
\<close>

definition Set_add :: "'a list \<Rightarrow> 'a \<Rightarrow> 'a list" where
  "Set_add s x = (if x \<in> set s then s else s @ [x])"

definition toSet :: "'a list \<Rightarrow> 'a list" where
  "toSet xs = foldl Set_add [] xs"

text \<open>A \<^verbatim>\<open>Map\<close> is the list of its entries in insertion order.\<close>

definition Map_get :: "('k \<times> 'v) list \<Rightarrow> 'k \<Rightarrow> 'v option" where
  "Map_get m k = map_of m k"

definition Map_has :: "('k \<times> 'v) list \<Rightarrow> 'k \<Rightarrow> bool" where
  "Map_has m k = (map_of m k \<noteq> None)"

fun Map_set :: "('k \<times> 'v) list \<Rightarrow> 'k \<Rightarrow> 'v \<Rightarrow> ('k \<times> 'v) list" where
  "Map_set [] k v = [(k, v)]"
| "Map_set ((k', v') # m) k v =
     (if k' = k then (k, v) # m else (k', v') # Map_set m k v)"

text \<open>A string used as a condition: \<^verbatim>\<open>undefined\<close> and the empty string are falsy.\<close>

definition truthy :: "string option \<Rightarrow> bool" where
  "truthy s = (s \<noteq> None \<and> s \<noteq> Some [])"

text \<open>
  \<^verbatim>\<open>for (const key in obj)\<close> visits the enumerable property names of the object: none for
  a \<^verbatim>\<open>Set\<close>, the indices for an array.
\<close>

datatype js_collection = JSSet "string list" | JSArray "string list"

fun for_in_keys :: "js_collection \<Rightarrow> string list" where
  "for_in_keys (JSSet xs) = []"
| "for_in_keys (JSArray xs) = map show_nat [0..<length xs]"

section \<open>The rule set and the constants (aff/index.ts, constants.ts, util.ts are not among the sources)\<close>

text \<open>
  Modelled from the spec: \<^verbatim>\<open>new RepPattern(pattern, replacement)\<close> of aff/rep-pattern.ts,
  a replacement pattern given by its from-text and its to-text.
\<close>

datatype RepPattern = RepPattern string string

text \<open>
  Modelled from the spec: the surface of the rule set that dic/word.ts uses. \<^verbatim>\<open>ignore\<close>,
  \<^verbatim>\<open>casing.guess\<close> and \<^verbatim>\<open>parseFlags\<close> are parameters; \<^verbatim>\<open>PFX\<close> and \<^verbatim>\<open>SFX\<close> map a flag to
  a set of rule references; \<^verbatim>\<open>REP\<close> is the appendable collection of replacement patterns;
  \<^verbatim>\<open>AM\<close> is the table of morphology aliases, whose entries the spec gives as sets of
  component strings; an entry held as an array is provided for as well, since the
  declaration is not among the sources.
\<close>

record Aff =
  ignore :: "string \<Rightarrow> string"
  casing_guess :: "string \<Rightarrow> CapType"
  parseFlags :: "string \<Rightarrow> Flag list"
  PFX :: "(Flag \<times> ref list) list"
  SFX :: "(Flag \<times> ref list) list"
  REP :: "RepPattern list"
  AM :: "js_collection list"

text \<open>
  The regular expressions of constants.ts and \<^verbatim>\<open>split\<close> of util.ts are parameters: the
  groups a line matches (stem, flags, data), the key and value a data token matches, and
  the tokens of a data segment.
\<close>

record Consts =
  SPLIT_WORD_REGEX :: "string \<Rightarrow> (string \<times> string option \<times> string option) option"
  SPLIT_DATA_REGEX :: "string \<Rightarrow> (string \<times> string) option"
  util_split :: "string \<Rightarrow> string list"

section \<open>dic/word.ts\<close>

datatype error = SyntaxError string

text \<open>
  \<^verbatim>\<open>data\<close> maps a key to a reference to a \<^verbatim>\<open>Set\<close> object; the \<^verbatim>\<open>Set\<close> objects live in a
  store, since the constructor adds to a set through a reference it looked up. The rule
  set (\<^verbatim>\<open>private aff\<close>) is passed to the functions that use it, and the field
  \<^verbatim>\<open>affixes\<close>, which is declared and never assigned, is left out.
\<close>

record Word =
  stem :: string
  capType :: CapType
  flags :: "Flag list option"
  data :: "(string \<times> ref) list option"
  altSpellings :: "string list option"

text \<open>
  The three statements that record one string in \<^verbatim>\<open>this.data\<close>:
  \<^verbatim>\<open>this.data ??= new Map(); const set = this.data.get(k1) ?? new Set(); this.data.set(k2, set.add(x))\<close>.
  The key:value branch runs them with \<open>k1\<close> the value and \<open>k2\<close> the key; the
  morphology-alias branch with both the token.
\<close>

definition data_add ::
  "string \<Rightarrow> string \<Rightarrow> string \<Rightarrow> Word \<times> string list list \<Rightarrow> Word \<times> string list list" where
  "data_add k1 k2 x st =
     (case st of (w, sets) \<Rightarrow>
        let m = (case data w of None \<Rightarrow> [] | Some m \<Rightarrow> m);
            (r, sets1) = (case Map_get m k1 of Some r \<Rightarrow> (r, sets) | None \<Rightarrow> alloc sets []);
            sets2 = sets1[r := Set_add (sets1 ! r) x]
        in (w\<lparr>data := Some (Map_set m k2 r)\<rparr>, sets2))"

text \<open>
  The \<^verbatim>\<open>if (key === "ph")\<close> block. \<^verbatim>\<open>const [from, to] = value.split("->")\<close> binds the first
  two pieces; the split of a value that includes the arrow has at least two.
\<close>

definition ph_directive :: "string \<Rightarrow> Word \<times> Aff \<Rightarrow> Word \<times> Aff" where
  "ph_directive v st =
     (case st of (w, ruleset) \<Rightarrow>
        if endsWith v ''*''
        then (w, ruleset\<lparr>REP := REP ruleset @
                [RepPattern (slice v (Some 0) (Some (- 2))) (slice (stem w) (Some 0) (Some (- 1)))]\<rparr>)
        else if js_includes v ''->''
        then (case js_split v ''->'' of
                a # b # rest \<Rightarrow> (w, ruleset\<lparr>REP := REP ruleset @ [RepPattern a b]\<rparr>)
              | _ \<Rightarrow> (w, ruleset))
        else (w\<lparr>altSpellings :=
                   Some (Set_add (case altSpellings w of None \<Rightarrow> [] | Some s \<Rightarrow> s) v)\<rparr>,
              ruleset\<lparr>REP := REP ruleset @ [RepPattern v (stem w)]\<rparr>))"

text \<open>The body of the loop over the tokens of the data segment.\<close>

definition data_token ::
  "Consts \<Rightarrow> Word \<times> Aff \<times> string list list \<Rightarrow> string \<Rightarrow> Word \<times> Aff \<times> string list list" where
  "data_token C st keyvalue =
     (case st of (w, ruleset, sets) \<Rightarrow>
        (case SPLIT_DATA_REGEX C keyvalue of
           Some (key, v) \<Rightarrow>
             (case data_add v key v (w, sets) of (w1, sets1) \<Rightarrow>
                if key = ''ph''
                then (case ph_directive v (w1, ruleset) of (w2, aff2) \<Rightarrow> (w2, aff2, sets1))
                else (w1, ruleset, sets1))
         | None \<Rightarrow>
             (case (if is_digits keyvalue then js_get (AM ruleset) (int (parseInt keyvalue) - 1)
                    else None) of
                Some alias \<Rightarrow>
                  (case foldl (\<lambda>acc str. data_add keyvalue keyvalue str acc) (w, sets)
                          (for_in_keys alias) of
                     (w1, sets1) \<Rightarrow> (w1, ruleset, sets1))
              | None \<Rightarrow> (w, ruleset, sets))))"

definition Word_new ::
  "Consts \<Rightarrow> string \<Rightarrow> Aff \<Rightarrow> string list list \<Rightarrow> error + Word \<times> Aff \<times> string list list" where
  "Word_new C line ruleset sets =
     (let line1 = replaceAll [CHR 0x5C, CHR ''/''] ''_||_'' line
      in case SPLIT_WORD_REGEX C line1 of
           None \<Rightarrow> Inl (SyntaxError line1)
         | Some (stem0, fl, dat) \<Rightarrow>
             let stem1 = ignore ruleset (replaceAll ''_||_'' ''/'' stem0);
                 this = \<lparr>stem = stem1, capType = casing_guess ruleset stem1,
                         flags = (if truthy fl then Some (parseFlags ruleset (the fl)) else None),
                         data = None, altSpellings = None\<rparr>
             in Inr (if truthy dat
                     then foldl (data_token C) (this, ruleset, sets) (util_split C (the dat))
                     else (this, ruleset, sets)))"

definition Word_has :: "Word \<Rightarrow> Flag option \<Rightarrow> bool" where
  "Word_has this flag =
     (case flag of None \<Rightarrow> False
      | Some f \<Rightarrow> (case flags this of None \<Rightarrow> False | Some fl \<Rightarrow> f \<in> set fl))"

text \<open>
  The rules of a table (\<^verbatim>\<open>PFX\<close> or \<^verbatim>\<open>SFX\<close>) that apply to the word:
  \<^verbatim>\<open>iterate(this.flags).filter(has).map(get).flatten().filter(relevant).toSet()\<close>.
\<close>

definition applicable :: "Affix list \<Rightarrow> (Flag \<times> ref list) list \<Rightarrow> Word \<Rightarrow> ref list" where
  "applicable rules table this =
     toSet (filter (\<lambda>affix. relevant (rules ! affix) (stem this))
              (concat (map (\<lambda>flag. the (Map_get table flag))
                         (filter (\<lambda>flag. Map_has table flag) (the (flags this))))))"

definition forms_suffixes :: "Affix list \<Rightarrow> Aff \<Rightarrow> Word \<Rightarrow> string option \<Rightarrow> ref list" where
  "forms_suffixes rules ruleset this similarTo =
     filter (\<lambda>s. if truthy similarTo then endsWith (the similarTo) (add (rules ! s)) else True)
       (applicable rules (SFX ruleset) this)"

definition forms_prefixes :: "Affix list \<Rightarrow> Aff \<Rightarrow> Word \<Rightarrow> string option \<Rightarrow> ref list" where
  "forms_prefixes rules ruleset this similarTo =
     filter (\<lambda>p. if truthy similarTo then startsWith (the similarTo) (add (rules ! p)) else True)
       (applicable rules (PFX ruleset) this)"

definition forms_cross :: "Affix list \<Rightarrow> ref list \<Rightarrow> ref list \<Rightarrow> (ref \<times> ref) list" where
  "forms_cross rules prefixes suffixes =
     concat (map (\<lambda>p. map (\<lambda>s. (p, s))
                          (filter (\<lambda>s. crossproduct (rules ! s) \<and> crossproduct (rules ! p)) suffixes))
               prefixes)"

text \<open>The bodies of the three loops that push forms.\<close>

definition suffix_form :: "Affix list \<Rightarrow> Word \<Rightarrow> ref \<Rightarrow> string" where
  "suffix_form rules this s =
     (let root = (if strip (rules ! s) \<noteq> []
                  then slice (stem this) (Some 0) (Some (- int (length (strip (rules ! s)))))
                  else stem this)
      in root @ add (rules ! s))"

definition cross_form :: "Affix list \<Rightarrow> Word \<Rightarrow> ref \<times> ref \<Rightarrow> string" where
  "cross_form rules this ps =
     (case ps of (p, s) \<Rightarrow>
        let root = (if strip (rules ! s) \<noteq> []
                    then slice (stem this) (Some (int (length (strip (rules ! p)))))
                           (Some (- int (length (strip (rules ! s)))))
                    else slice (stem this) (Some (int (length (strip (rules ! p))))) None)
        in add (rules ! p) @ root @ add (rules ! s))"

definition prefix_form :: "Affix list \<Rightarrow> Word \<Rightarrow> ref \<Rightarrow> string" where
  "prefix_form rules this p =
     (let root = slice (stem this) (Some (int (length (strip (rules ! p))))) None
      in add (rules ! p) @ root)"

definition Word_forms :: "Affix list \<Rightarrow> Aff \<Rightarrow> Word \<Rightarrow> string option \<Rightarrow> string list" where
  "Word_forms rules ruleset this similarTo =
     (if flags this = None then [stem this]
      else
        let suffixes = forms_suffixes rules ruleset this similarTo;
            prefixes = forms_prefixes rules ruleset this similarTo;
            cross = forms_cross rules prefixes suffixes
        in [stem this]
           @ map (suffix_form rules this) suffixes
           @ map (cross_form rules this) cross
           @ map (prefix_form rules this) prefixes)"

text \<open>
  \<^verbatim>\<open>flagSets\<close>: every \<^verbatim>\<open>new Set(word.flags)\<close> is a new object in the store of flag sets, and
  the outer \<^verbatim>\<open>Set\<close> holds the references.
\<close>

fun alloc_all :: "'a list \<Rightarrow> 'a list \<Rightarrow> ref list \<times> 'a list" where
  "alloc_all store [] = ([], store)"
| "alloc_all store (x # xs) =
     (case alloc store x of (r, store1) \<Rightarrow>
        (case alloc_all store1 xs of (rs, store2) \<Rightarrow> (r # rs, store2)))"

definition Word_flagSets :: "Flag list list \<Rightarrow> Word list \<Rightarrow> ref list \<times> Flag list list" where
  "Word_flagSets store words =
     (case alloc_all store
             (map (\<lambda>word. toSet (the (flags word))) (filter (\<lambda>word. flags word \<noteq> None) words)) of
        (rs, store') \<Rightarrow> (toSet rs, store'))"

text \<open>\<^verbatim>\<open>word.data.get(key)\<close>, read through the store of sets.\<close>

definition Word_data_get :: "Word \<Rightarrow> string list list \<Rightarrow> string \<Rightarrow> string list option" where
  "Word_data_get this sets key =
     (case data this of None \<Rightarrow> None
      | Some m \<Rightarrow> (case Map_get m key of None \<Rightarrow> None | Some r \<Rightarrow> Some (sets ! r)))"

subsection \<open>Example rule set, constants and entries\<close>

text \<open>
  The examples use the entry \<^verbatim>\<open>cat\<close> with the flags \<^verbatim>\<open>A\<close> and \<^verbatim>\<open>B\<close>, a rule set whose
  table \<^verbatim>\<open>PFX\<close> gives the rule at reference 1 for \<^verbatim>\<open>A\<close> and whose table \<^verbatim>\<open>SFX\<close> gives
  the rule at reference 0 for \<^verbatim>\<open>B\<close>, and stores of rules such as \<open>[rule_ly, rule_un]\<close>:
  the suffix \<^verbatim>\<open>-ly\<close> at reference 0 and the prefix \<^verbatim>\<open>un-\<close> at reference 1.
\<close>

definition is_space :: "char \<Rightarrow> bool" where
  "is_space c = (c = CHR '' '' \<or> c = CHR 0x09)"

fun split_spaces :: "string \<Rightarrow> string \<Rightarrow> string list" where
  "split_spaces piece [] = (if piece = [] then [] else [piece])"
| "split_spaces piece (c # cs) =
     (if is_space c then (if piece = [] then split_spaces [] cs else piece # split_spaces [] cs)
      else split_spaces (piece @ [c]) cs)"

text \<open>
  Modelled from the spec: the dictionary line grammar \<^verbatim>\<open>STEM[/FLAGS] [KEY:VALUE ...]\<close>, for
  the values of \<^verbatim>\<open>SPLIT_WORD_REGEX\<close>, \<^verbatim>\<open>SPLIT_DATA_REGEX\<close> and \<^verbatim>\<open>split\<close> (constants.ts and
  util.ts are not among the sources). Used for the example lines only.
\<close>

definition grammar :: Consts where
  "grammar =
     \<lparr>SPLIT_WORD_REGEX = (\<lambda>line.
          let first = takeWhile (\<lambda>c. \<not> is_space c) line;
              rest = dropWhile is_space (dropWhile (\<lambda>c. \<not> is_space c) line);
              st = takeWhile (\<lambda>c. c \<noteq> CHR ''/'') first;
              fl = dropWhile (\<lambda>c. c \<noteq> CHR ''/'') first
          in if st = [] then None
             else Some (st, if fl = [] then None else Some (tl fl),
                        if rest = [] then None else Some rest)),
      SPLIT_DATA_REGEX = (\<lambda>token.
          let key = takeWhile (\<lambda>c. c \<noteq> CHR '':'') token;
              rest = dropWhile (\<lambda>c. c \<noteq> CHR '':'') token
          in if key = [] \<or> length rest < 2 then None else Some (key, tl rest)),
      util_split = split_spaces []\<rparr>"

definition aff_example :: Aff where
  "aff_example =
     \<lparr>ignore = (\<lambda>s. s), casing_guess = (\<lambda>s. NO), parseFlags = (\<lambda>s. toSet (map (\<lambda>c. [c]) s)),
      PFX = [(''A'', [1])], SFX = [(''B'', [0])], REP = [],
      AM = [JSSet [''po:noun'', ''ts:0'']]\<rparr>"

definition word_cat :: Word where
  "word_cat = \<lparr>stem = ''cat'', capType = NO, flags = Some [''A'', ''B''], data = None,
               altSpellings = None\<rparr>"

definition rule_ly :: Affix where
  "rule_ly = \<lparr>strip = [], add = ''ly'', crossproduct = True, affix_flags = [''F''],
              relevant = (\<lambda>stem. True)\<rparr>"

definition rule_un :: Affix where
  "rule_un = \<lparr>strip = [], add = ''un'', crossproduct = True, affix_flags = [],
              relevant = (\<lambda>stem. True)\<rparr>"

definition form_bare :: AffixForm where
  "form_bare = AffixForm_new (Inl ''cat'' :: string + (unit, unit) LKWord) None
     \<lparr>prefix = None, suffix = None, prefix2 = None, suffix2 = None, inDictionary = None\<rparr>"

definition form_catly :: AffixForm where
  "form_catly = AffixForm_new (Inl ''catly'' :: string + (unit, unit) LKWord) (Some ''cat'')
     \<lparr>prefix = None, suffix = Some 0, prefix2 = None, suffix2 = None, inDictionary = None\<rparr>"

definition rule_un_F :: Affix where
  "rule_un_F = rule_un\<lparr>affix_flags := [''F'']\<rparr>"

definition form_uncatly :: AffixForm where
  "form_uncatly = AffixForm_new (Inl ''uncatly'' :: string + (unit, unit) LKWord) (Some ''cat'')
     \<lparr>prefix = Some 1, suffix = Some 0, prefix2 = None, suffix2 = None, inDictionary = None\<rparr>"

definition form_inner :: AffixForm where
  "form_inner = AffixForm_new (Inl ''catly'' :: string + (unit, unit) LKWord) (Some ''cat'')
     \<lparr>prefix = None, suffix = None, prefix2 = None, suffix2 = Some 0, inDictionary = None\<rparr>"

definition opts_none :: "(unit, unit) ReplaceOpts" where
  "opts_none = \<lparr>o_text = Absent, o_stem = Absent, o_prefix = Absent, o_suffix = Absent,
                o_prefix2 = Absent, o_suffix2 = Absent, o_inDictionary = Absent\<rparr>"

definition opts_stem_x :: "(unit, unit) ReplaceOpts" where
  "opts_stem_x = opts_none\<lparr>o_stem := Present (Some ''x'')\<rparr>"

definition opts_suffix_undefined :: "(unit, unit) ReplaceOpts" where
  "opts_suffix_undefined = opts_none\<lparr>o_suffix := Present None\<rparr>"

definition entry :: "string \<Rightarrow> Word" where
  "entry s = \<lparr>stem = s, capType = NO, flags = None, data = None, altSpellings = None\<rparr>"

definition rule_zero :: Affix where
  "rule_zero = \<lparr>strip = [], add = [], crossproduct = True, affix_flags = [],
                relevant = (\<lambda>stem. True)\<rparr>"

definition rule_un_single :: Affix where
  "rule_un_single = rule_un\<lparr>crossproduct := False\<rparr>"

section \<open>Properties of the tagged word handle\<close>

text \<open>
  C10. \<^verbatim>\<open>LKWord.at(n)\<close> has a result for every integer \<open>n\<close> and no error branch: with
  \<open>L\<close> the length of the word it is \<^verbatim>\<open>undefined\<close> when \<open>n \<ge> L\<close> or \<open>n < -L\<close>, the
  character at \<open>n\<close> when \<open>0 \<le> n < L\<close>, and the character at \<open>L + n\<close> when \<open>-L \<le> n < 0\<close>.
\<close>

theorem LKWord_at_total:
  fixes w :: "('aff, 'dic) LKWord" and n :: int
  defines "L \<equiv> int (LKWord_length w)"
  shows "(L \<le> n \<or> n < - L \<longrightarrow> LKWord_at w n = None)
       \<and> (0 \<le> n \<and> n < L \<longrightarrow> LKWord_at w n = Some (word w ! nat n))
       \<and> (- L \<le> n \<and> n < 0 \<longrightarrow> LKWord_at w n = Some (word w ! nat (L + n)))"
  by (auto simp: L_def LKWord_at_def LKWord_length_def js_index_def)

theorem LKWord_at_total_witness:
  "LKWord_at \<lparr>aff = (), dic = (), word = ''cat'', type = NO, pos = None\<rparr> 3 = None
   \<and> LKWord_at \<lparr>aff = (), dic = (), word = ''cat'', type = NO, pos = None\<rparr> (- 4) = None
   \<and> LKWord_at \<lparr>aff = (), dic = (), word = ''cat'', type = NO, pos = None\<rparr> 1 = Some (CHR ''a'')
   \<and> LKWord_at \<lparr>aff = (), dic = (), word = ''cat'', type = NO, pos = None\<rparr> (- 1) = Some (CHR ''t'')"
  using LKWord_at_total [of "\<lparr>aff = (), dic = (), word = ''cat'', type = NO, pos = None\<rparr>" 3]
    LKWord_at_total [of "\<lparr>aff = (), dic = (), word = ''cat'', type = NO, pos = None\<rparr>" "- 4"]
    LKWord_at_total [of "\<lparr>aff = (), dic = (), word = ''cat'', type = NO, pos = None\<rparr>" 1]
    LKWord_at_total [of "\<lparr>aff = (), dic = (), word = ''cat'', type = NO, pos = None\<rparr>" "- 1"]
  by (simp add: LKWord_length_def)

section \<open>Properties of the decomposition hypothesis\<close>

lemma set_affixes:
  "set (affixes h) =
     {a. prefix2 h = Some a \<or> prefix h = Some a \<or> suffix h = Some a \<or> suffix2 h = Some a}"
  by (auto simp: affixes_def)

text \<open>
  C8. \<^verbatim>\<open>has(flag)\<close> is true exactly when an outer prefix or an outer suffix is present and
  every present affix among \<^verbatim>\<open>[prefix2, prefix, suffix, suffix2]\<close> carries the flag. Hence
  it is false when no affix is present; when it is true, every present affix carries the
  flag; and a form whose only affix is the outer suffix has the flag exactly when that
  suffix carries it.
\<close>

theorem AffixForm_has_all:
  "AffixForm_has rules h F =
     ((suffix h \<noteq> None \<or> prefix h \<noteq> None)
      \<and> (\<forall>a. prefix2 h = Some a \<or> prefix h = Some a \<or> suffix h = Some a \<or> suffix2 h = Some a
             \<longrightarrow> Affix_has (rules ! a) F))
   \<and> AffixForm_has rules h F =
       (hasAffixes h \<and> (\<forall>a \<in> set (affixes h). Affix_has (rules ! a) F))
   \<and> (affixes h = [] \<longrightarrow> \<not> AffixForm_has rules h F)
   \<and> (AffixForm_has rules h F \<longrightarrow> (\<forall>a \<in> set (affixes h). Affix_has (rules ! a) F))
   \<and> (prefix2 h = None \<and> prefix h = None \<and> suffix2 h = None \<and> suffix h = Some s
        \<longrightarrow> AffixForm_has rules h F = Affix_has (rules ! s) F)"
proof -
  have exact: "AffixForm_has rules h F =
       (hasAffixes h \<and> (\<forall>a \<in> set (affixes h). Affix_has (rules ! a) F))"
    by (simp add: AffixForm_has_def list_all_iff)
  have fields: "AffixForm_has rules h F =
     ((suffix h \<noteq> None \<or> prefix h \<noteq> None)
      \<and> (\<forall>a. prefix2 h = Some a \<or> prefix h = Some a \<or> suffix h = Some a \<or> suffix2 h = Some a
             \<longrightarrow> Affix_has (rules ! a) F))"
    unfolding exact set_affixes hasAffixes_def by simp
  have none: "affixes h = [] \<longrightarrow> \<not> AffixForm_has rules h F"
    by (auto simp: AffixForm_has_def hasAffixes_def affixes_def)
  have all: "AffixForm_has rules h F \<longrightarrow> (\<forall>a \<in> set (affixes h). Affix_has (rules ! a) F)"
    using exact by simp
  have lone: "prefix2 h = None \<and> prefix h = None \<and> suffix2 h = None \<and> suffix h = Some s
        \<longrightarrow> AffixForm_has rules h F = Affix_has (rules ! s) F"
    unfolding fields by auto
  show ?thesis
    by (rule conjI [OF fields conjI [OF exact conjI [OF none conjI [OF all lone]]]])
qed

theorem AffixForm_has_all_witness:
  "affixes form_bare = [] \<and> \<not> AffixForm_has [rule_ly, rule_un] form_bare ''F''
   \<and> prefix2 form_catly = None \<and> prefix form_catly = None \<and> suffix2 form_catly = None
   \<and> suffix form_catly = Some 0 \<and> Affix_has ([rule_ly, rule_un] ! 0) ''F''
   \<and> AffixForm_has [rule_ly, rule_un] form_catly ''F''
   \<and> \<not> AffixForm_has [rule_ly, rule_un] form_catly ''G''
   \<and> affixes form_uncatly = [1, 0] \<and> hasAffixes form_uncatly
   \<and> Affix_has ([rule_ly, rule_un_F] ! 1) ''F'' \<and> Affix_has ([rule_ly, rule_un_F] ! 0) ''F''
   \<and> AffixForm_has [rule_ly, rule_un_F] form_uncatly ''F''
   \<and> \<not> Affix_has ([rule_ly, rule_un] ! 1) ''F''
   \<and> \<not> AffixForm_has [rule_ly, rule_un] form_uncatly ''F''
   \<and> affixes form_inner = [0] \<and> \<not> hasAffixes form_inner
   \<and> \<not> AffixForm_has [rule_ly, rule_un] form_inner ''F''"
proof -
  have bare: "affixes form_bare = []"
    by code_simp
  have only_suffix: "prefix2 form_catly = None \<and> prefix form_catly = None
      \<and> suffix2 form_catly = None \<and> suffix form_catly = Some 0"
    by code_simp
  have carries: "Affix_has ([rule_ly, rule_un] ! 0) ''F''"
    and lacks: "\<not> Affix_has ([rule_ly, rule_un] ! 0) ''G''"
    by code_simp+
  have both: "affixes form_uncatly = [1, 0] \<and> hasAffixes form_uncatly"
    by code_simp
  have both_F: "Affix_has ([rule_ly, rule_un_F] ! 1) ''F'' \<and> Affix_has ([rule_ly, rule_un_F] ! 0) ''F''"
    by code_simp
  have prefix_lacks: "\<not> Affix_has ([rule_ly, rule_un] ! 1) ''F''"
    by code_simp
  have inner: "affixes form_inner = [0] \<and> \<not> hasAffixes form_inner"
    by code_simp
  note bare_F = AffixForm_has_all [of "[rule_ly, rule_un]" form_bare "''F''" 0]
  note catly_F = AffixForm_has_all [of "[rule_ly, rule_un]" form_catly "''F''" 0]
  note catly_G = AffixForm_has_all [of "[rule_ly, rule_un]" form_catly "''G''" 0]
  note uncatly_F = AffixForm_has_all [of "[rule_ly, rule_un_F]" form_uncatly "''F''" 0]
  note uncatly_no = AffixForm_has_all [of "[rule_ly, rule_un]" form_uncatly "''F''" 0]
  note inner_F = AffixForm_has_all [of "[rule_ly, rule_un]" form_inner "''F''" 0]
  have c1: "\<not> AffixForm_has [rule_ly, rule_un] form_bare ''F''"
    using bare_F [THEN conjunct2, THEN conjunct2, THEN conjunct1] bare by simp
  have c2: "AffixForm_has [rule_ly, rule_un] form_catly ''F''"
    using catly_F [THEN conjunct2, THEN conjunct2, THEN conjunct2, THEN conjunct2]
      only_suffix carries by simp
  have c3: "\<not> AffixForm_has [rule_ly, rule_un] form_catly ''G''"
    using catly_G [THEN conjunct2, THEN conjunct2, THEN conjunct2, THEN conjunct2]
      only_suffix lacks by simp
  have c4: "AffixForm_has [rule_ly, rule_un_F] form_uncatly ''F''"
    using uncatly_F [THEN conjunct2, THEN conjunct1] both both_F by simp
  have c5: "\<not> AffixForm_has [rule_ly, rule_un] form_uncatly ''F''"
    using uncatly_no [THEN conjunct2, THEN conjunct1] both prefix_lacks by simp
  have c6: "\<not> AffixForm_has [rule_ly, rule_un] form_inner ''F''"
    using inner_F [THEN conjunct2, THEN conjunct1] inner by simp
  from bare c1 only_suffix carries c2 c3 both both_F c4 prefix_lacks c5 inner c6
  show ?thesis by simp
qed

text \<open>
  C9, as stated, fails for a field that the overrides name with the value
  \<^verbatim>\<open>undefined\<close>: \<^verbatim>\<open>h.replace({suffix: undefined})\<close> on a form with a suffix returns a form
  with the suffix of \<open>h\<close>, not with the override.
\<close>

theorem AffixForm_replace_counterexample:
  "o_suffix opts_suffix_undefined = Present None
   \<and> suffix ([form_catly] ! 0) = Some 0
   \<and> AffixForm_replace [form_catly] 0 opts_suffix_undefined = (1, [form_catly, form_catly])
   \<and> suffix ([form_catly, form_catly] ! 1) = Some 0
   \<and> suffix ([form_catly, form_catly] ! 1) \<noteq> prop_read (o_suffix opts_suffix_undefined)"
  by code_simp

text \<open>
  C9, amended. \<^verbatim>\<open>h.replace(overrides)\<close> allocates a new form: its reference is the next
  free one, so it is the reference of no form in the store, and the store afterwards is
  the store before followed by the new form, so \<open>h\<close> and every other form are unchanged.
  In the new form a field that the overrides name with a defined value holds that value
  (for \<^verbatim>\<open>text\<close> given as a word handle, the string of the handle); a field that the
  overrides do not name, or name with \<^verbatim>\<open>undefined\<close>, equals the field of \<open>h\<close>.
\<close>

theorem AffixForm_replace_frame:
  assumes "this < length store" and "AffixForm_replace store this opts = (r, store')"
  shows "r = length store \<and> r \<noteq> this \<and> store' = store @ [store' ! r]
       \<and> store' ! this = store ! this
       \<and> form_text (store' ! r) =
           (case o_text opts of
              Present (Some (Inl s)) \<Rightarrow> s | Present (Some (Inr w)) \<Rightarrow> word w
            | Present None \<Rightarrow> form_text (store ! this) | Absent \<Rightarrow> form_text (store ! this))
       \<and> form_stem (store' ! r) =
           (case o_stem opts of
              Present (Some s) \<Rightarrow> s
            | Present None \<Rightarrow> form_stem (store ! this) | Absent \<Rightarrow> form_stem (store ! this))
       \<and> prefix (store' ! r) =
           (case o_prefix opts of
              Present (Some a) \<Rightarrow> Some a
            | Present None \<Rightarrow> prefix (store ! this) | Absent \<Rightarrow> prefix (store ! this))
       \<and> suffix (store' ! r) =
           (case o_suffix opts of
              Present (Some a) \<Rightarrow> Some a
            | Present None \<Rightarrow> suffix (store ! this) | Absent \<Rightarrow> suffix (store ! this))
       \<and> prefix2 (store' ! r) =
           (case o_prefix2 opts of
              Present (Some a) \<Rightarrow> Some a
            | Present None \<Rightarrow> prefix2 (store ! this) | Absent \<Rightarrow> prefix2 (store ! this))
       \<and> suffix2 (store' ! r) =
           (case o_suffix2 opts of
              Present (Some a) \<Rightarrow> Some a
            | Present None \<Rightarrow> suffix2 (store ! this) | Absent \<Rightarrow> suffix2 (store ! this))
       \<and> inDictionary (store' ! r) =
           (case o_inDictionary opts of
              Present (Some a) \<Rightarrow> Some a
            | Present None \<Rightarrow> inDictionary (store ! this)
            | Absent \<Rightarrow> inDictionary (store ! this))"
proof -
  define obj where "obj =
      AffixForm_new
        (case prop_read (o_text opts) of None \<Rightarrow> Inl (form_text (store ! this)) | Some t \<Rightarrow> t)
        (Some (case prop_read (o_stem opts) of None \<Rightarrow> form_stem (store ! this) | Some s \<Rightarrow> s))
        \<lparr>prefix = nullish (prop_read (o_prefix opts)) (prefix (store ! this)),
         suffix = nullish (prop_read (o_suffix opts)) (suffix (store ! this)),
         prefix2 = nullish (prop_read (o_prefix2 opts)) (prefix2 (store ! this)),
         suffix2 = nullish (prop_read (o_suffix2 opts)) (suffix2 (store ! this)),
         inDictionary = nullish (prop_read (o_inDictionary opts)) (inDictionary (store ! this))\<rparr>"
  have "AffixForm_replace store this opts = (length store, store @ [obj])"
    by (simp add: AffixForm_replace_def alloc_def Let_def obj_def)
  with assms(2) have r: "r = length store" and s: "store' = store @ [obj]"
    by simp_all
  have new: "store' ! r = obj"
    by (simp add: r s)
  have fresh: "r \<noteq> this"
    using assms(1) by (simp add: r)
  have grown: "store' = store @ [store' ! r]"
    unfolding new by (rule s)
  have old: "store' ! this = store ! this"
    using assms(1) by (simp add: s nth_append)
  have f1: "form_text obj =
           (case o_text opts of
              Present (Some (Inl s)) \<Rightarrow> s | Present (Some (Inr w)) \<Rightarrow> word w
            | Present None \<Rightarrow> form_text (store ! this) | Absent \<Rightarrow> form_text (store ! this))"
    by (simp add: obj_def AffixForm_new_def split: property.splits option.splits sum.splits)
  have f2: "form_stem obj =
           (case o_stem opts of
              Present (Some s) \<Rightarrow> s
            | Present None \<Rightarrow> form_stem (store ! this) | Absent \<Rightarrow> form_stem (store ! this))"
    by (simp add: obj_def AffixForm_new_def Let_def split: property.splits option.splits)
  have f3: "prefix obj =
           (case o_prefix opts of
              Present (Some a) \<Rightarrow> Some a
            | Present None \<Rightarrow> prefix (store ! this) | Absent \<Rightarrow> prefix (store ! this))"
    by (simp add: obj_def AffixForm_new_def nullish_def Let_def
        split: property.splits option.splits)
  have f4: "suffix obj =
           (case o_suffix opts of
              Present (Some a) \<Rightarrow> Some a
            | Present None \<Rightarrow> suffix (store ! this) | Absent \<Rightarrow> suffix (store ! this))"
    by (simp add: obj_def AffixForm_new_def nullish_def Let_def
        split: property.splits option.splits)
  have f5: "prefix2 obj =
           (case o_prefix2 opts of
              Present (Some a) \<Rightarrow> Some a
            | Present None \<Rightarrow> prefix2 (store ! this) | Absent \<Rightarrow> prefix2 (store ! this))"
    by (simp add: obj_def AffixForm_new_def nullish_def Let_def
        split: property.splits option.splits)
  have f6: "suffix2 obj =
           (case o_suffix2 opts of
              Present (Some a) \<Rightarrow> Some a
            | Present None \<Rightarrow> suffix2 (store ! this) | Absent \<Rightarrow> suffix2 (store ! this))"
    by (simp add: obj_def AffixForm_new_def nullish_def Let_def
        split: property.splits option.splits)
  have f7: "inDictionary obj =
           (case o_inDictionary opts of
              Present (Some a) \<Rightarrow> Some a
            | Present None \<Rightarrow> inDictionary (store ! this)
            | Absent \<Rightarrow> inDictionary (store ! this))"
    by (simp add: obj_def AffixForm_new_def nullish_def Let_def
        split: property.splits option.splits)
  show ?thesis
    unfolding new
    by (rule conjI [OF r conjI [OF fresh conjI [OF grown [unfolded new] conjI [OF old
          conjI [OF f1 conjI [OF f2 conjI [OF f3 conjI [OF f4 conjI [OF f5
            conjI [OF f6 f7]]]]]]]]]])
qed

theorem AffixForm_replace_frame_witness:
  "(0::nat) < length [form_catly]
   \<and> AffixForm_replace [form_catly] 0 opts_stem_x
       = (1, [form_catly, form_catly\<lparr>form_stem := ''x''\<rparr>])
   \<and> (1::nat) = length [form_catly]
   \<and> [form_catly, form_catly\<lparr>form_stem := ''x''\<rparr>] ! 0 = [form_catly] ! 0
   \<and> form_stem ([form_catly] ! 0) = ''cat''
   \<and> form_stem ([form_catly, form_catly\<lparr>form_stem := ''x''\<rparr>] ! 1) = ''x''
   \<and> form_text ([form_catly, form_catly\<lparr>form_stem := ''x''\<rparr>] ! 1) = ''catly''
   \<and> suffix ([form_catly, form_catly\<lparr>form_stem := ''x''\<rparr>] ! 1) = Some 0"
proof -
  have len: "(0::nat) < length [form_catly]" by simp
  have run: "AffixForm_replace [form_catly] 0 opts_stem_x
       = (1, [form_catly, form_catly\<lparr>form_stem := ''x''\<rparr>])"
    by code_simp
  note all = AffixForm_replace_frame [OF len run]
  have next_ref: "(1::nat) = length [form_catly]"
    by (rule all [THEN conjunct1])
  have unchanged: "[form_catly, form_catly\<lparr>form_stem := ''x''\<rparr>] ! 0 = [form_catly] ! 0"
    by (rule all [THEN conjunct2, THEN conjunct2, THEN conjunct2, THEN conjunct1])
  have vals: "form_stem ([form_catly] ! 0) = ''cat''
      \<and> form_stem ([form_catly, form_catly\<lparr>form_stem := ''x''\<rparr>] ! 1) = ''x''
      \<and> form_text ([form_catly, form_catly\<lparr>form_stem := ''x''\<rparr>] ! 1) = ''catly''
      \<and> suffix ([form_catly, form_catly\<lparr>form_stem := ''x''\<rparr>] ! 1) = Some 0"
    by code_simp
  show ?thesis
    by (rule conjI [OF len conjI [OF run conjI [OF next_ref conjI [OF unchanged vals]]]])
qed

section \<open>Facts about the library functions\<close>

lemma nat_int_diff: "nat (int x - int y) = x - y"
  by arith

lemma slice_to_neg:
  "0 < n \<Longrightarrow> slice s (Some 0) (Some (- int n)) = take (length s - n) s"
  by (auto simp: slice_def Let_def max_def nat_diff_distrib' simp flip: of_nat_diff)

lemma slice_from: "slice s (Some (int a)) None = drop a s"
  by (auto simp: slice_def Let_def min_def simp flip: of_nat_diff)

lemma slice_from_to_neg:
  "0 < n \<Longrightarrow> slice s (Some (int a)) (Some (- int n)) = drop a (take (length s - n) s)"
  by (auto simp: slice_def Let_def min_def max_def drop_take nat_int_diff simp flip: of_nat_diff)

lemma slice_drop_last2: "slice s (Some 0) (Some (- 2)) = take (length s - 2) s"
  using slice_to_neg [of 2 s] by simp

lemma slice_drop_last1: "slice s (Some 0) (Some (- 1)) = butlast s"
  using slice_to_neg [of 1 s] by (simp add: butlast_conv_take)

lemma split_sep_no_sep:
  "sep \<noteq> [] \<Longrightarrow> \<not> js_includes s sep \<Longrightarrow> split_sep sep piece s = [piece @ s]"
  by (induction s arbitrary: piece) auto

lemma split_sep_not_Nil: "split_sep sep piece s \<noteq> []"
  by (induction s arbitrary: piece) auto

text \<open>A string that includes the separator splits into at least two pieces.\<close>

lemma split_sep_two:
  "sep \<noteq> [] \<Longrightarrow> js_includes s sep \<Longrightarrow> \<exists>a b rest. split_sep sep piece s = a # b # rest"
proof (induction s arbitrary: piece)
  case Nil
  then show ?case by simp
next
  case (Cons c cs)
  show ?case
  proof (cases "startsWith (c # cs) sep")
    case True
    obtain x xs where "split_sep sep [] (drop (length sep - 1) cs) = x # xs"
      using split_sep_not_Nil by (metis list.exhaust)
    with True show ?thesis by simp
  next
    case False
    with Cons.prems have "js_includes cs sep" by simp
    from Cons.IH [OF Cons.prems(1) this, of "piece @ [c]"] False show ?thesis by simp
  qed
qed

lemma split_sep_arrow:
  "\<not> js_includes a ''->'' \<Longrightarrow>
   split_sep ''->'' piece (a @ ''->'' @ b) = (piece @ a) # split_sep ''->'' [] b"
proof (induction a arbitrary: piece)
  case Nil
  then show ?case by (simp add: startsWith_def)
next
  case (Cons c cs)
  from Cons.prems have no: "\<not> startsWith (c # cs) ''->''" and rest: "\<not> js_includes cs ''->''"
    by simp_all
  have "\<not> startsWith ((c # cs) @ ''->'' @ b) ''->''"
    using no by (cases cs) (auto simp: startsWith_def)
  with Cons.IH [OF rest, of "piece @ [c]"] show ?case by simp
qed

lemma js_split_arrow:
  "\<not> js_includes a ''->'' \<Longrightarrow> \<not> js_includes b ''->'' \<Longrightarrow>
   js_split (a @ ''->'' @ b) ''->'' = [a, b]"
  using split_sep_arrow [of a "[]" b] split_sep_no_sep [of "''->''" b "[]"]
  by (simp add: js_split_def)

lemma js_includes_arrow: "js_includes (a @ ''->'' @ b) ''->''"
  by (induction a) (auto simp: startsWith_def)

section \<open>Facts about the parser of data tokens\<close>

lemma data_add_word:
  "stem (fst (data_add k1 k2 x (w, sets))) = stem w
   \<and> altSpellings (fst (data_add k1 k2 x (w, sets))) = altSpellings w
   \<and> flags (fst (data_add k1 k2 x (w, sets))) = flags w
   \<and> capType (fst (data_add k1 k2 x (w, sets))) = capType w"
  by (simp add: data_add_def Let_def split: prod.splits option.splits)

lemma data_token_ph:
  assumes "SPLIT_DATA_REGEX C token = Some (''ph'', v)"
  shows "data_token C (w, rs, sets) token =
           (fst (ph_directive v (fst (data_add v ''ph'' v (w, sets)), rs)),
            snd (ph_directive v (fst (data_add v ''ph'' v (w, sets)), rs)),
            snd (data_add v ''ph'' v (w, sets)))"
  using assms by (simp add: data_token_def split: prod.splits)

lemma ph_directive_wildcard:
  assumes "endsWith v ''*''"
  shows "ph_directive v (w, rs) =
           (w, rs\<lparr>REP := REP rs @ [RepPattern (take (length v - 2) v) (butlast (stem w))]\<rparr>)"
  using assms by (simp add: ph_directive_def slice_drop_last2 slice_drop_last1)

lemma ph_directive_plain:
  assumes "\<not> endsWith v ''*''" and "\<not> js_includes v ''->''"
  shows "ph_directive v (w, rs) =
           (w\<lparr>altSpellings := Some (Set_add (case altSpellings w of None \<Rightarrow> [] | Some s \<Rightarrow> s) v)\<rparr>,
            rs\<lparr>REP := REP rs @ [RepPattern v (stem w)]\<rparr>)"
  using assms by (simp add: ph_directive_def)

lemma ph_directive_arrow_pieces:
  assumes "\<not> endsWith v ''*''" and "js_includes v ''->''"
  shows "\<exists>a b rest. js_split v ''->'' = a # b # rest
           \<and> ph_directive v (w, rs) = (w, rs\<lparr>REP := REP rs @ [RepPattern a b]\<rparr>)"
proof -
  obtain a b rest where "js_split v ''->'' = a # b # rest"
    using split_sep_two [of "''->''" v "[]"] assms(2) by (auto simp: js_split_def)
  with assms show ?thesis by (simp add: ph_directive_def)
qed

section \<open>Properties of the dictionary entry parser\<close>

text \<open>
  C5. For a \<^verbatim>\<open>ph:\<close> token whose value ends with the wildcard \<^verbatim>\<open>*\<close>, parsing appends exactly
  one replacement pattern to \<^verbatim>\<open>REP\<close>: from the value without its last two characters to
  the stem without its last character. The alternate spellings are not changed.
\<close>

theorem ph_wildcard_registers:
  assumes "SPLIT_DATA_REGEX C token = Some (''ph'', v)" and "endsWith v ''*''"
    and "data_token C (w, rs, sets) token = (w', rs', sets')"
  shows "REP rs' = REP rs @ [RepPattern (take (length v - 2) v) (butlast (stem w))]
       \<and> altSpellings w' = altSpellings w"
proof -
  let ?w1 = "fst (data_add v ''ph'' v (w, sets))"
  from assms(3) have "w' = fst (ph_directive v (?w1, rs))" and "rs' = snd (ph_directive v (?w1, rs))"
    unfolding data_token_ph [OF assms(1)] by simp_all
  then show ?thesis
    by (simp add: ph_directive_wildcard [OF assms(2)] data_add_word)
qed

theorem ph_wildcard_registers_witness:
  "SPLIT_DATA_REGEX grammar ''ph:prity*'' = Some (''ph'', ''prity*'') \<and> endsWith ''prity*'' ''*''
   \<and> REP (fst (snd (data_token grammar (entry ''pretty'', aff_example, []) ''ph:prity*'')))
       = REP aff_example @ [RepPattern (take (length ''prity*'' - 2) ''prity*'')
                              (butlast (stem (entry ''pretty'')))]
   \<and> altSpellings (fst (data_token grammar (entry ''pretty'', aff_example, []) ''ph:prity*''))
       = altSpellings (entry ''pretty'')
   \<and> REP aff_example @ [RepPattern (take (length ''prity*'' - 2) ''prity*'')
                              (butlast (stem (entry ''pretty'')))]
       = [RepPattern ''prit'' ''prett'']"
proof -
  have tok: "SPLIT_DATA_REGEX grammar ''ph:prity*'' = Some (''ph'', ''prity*'')"
    by code_simp
  have star: "endsWith ''prity*'' ''*''"
    by code_simp
  have run: "data_token grammar (entry ''pretty'', aff_example, []) ''ph:prity*'' =
      (fst (data_token grammar (entry ''pretty'', aff_example, []) ''ph:prity*''),
       fst (snd (data_token grammar (entry ''pretty'', aff_example, []) ''ph:prity*'')),
       snd (snd (data_token grammar (entry ''pretty'', aff_example, []) ''ph:prity*'')))"
    by simp
  have val: "REP aff_example @ [RepPattern (take (length ''prity*'' - 2) ''prity*'')
                              (butlast (stem (entry ''pretty'')))]
       = [RepPattern ''prit'' ''prett'']"
    by code_simp
  show ?thesis
    by (rule conjI [OF tok conjI [OF star
          conjI [OF conjunct1 [OF ph_wildcard_registers [OF tok star run]]
            conjI [OF conjunct2 [OF ph_wildcard_registers [OF tok star run]] val]]]])
qed


text \<open>
  C4, as stated, fails for arrow forms in general: the pattern registered for
  \<^verbatim>\<open>ph:a->b->c\<close> is \<open>(a, b)\<close>, which is neither \<open>(a, b->c)\<close> nor \<open>(a->b, c)\<close>, and
  \<^verbatim>\<open>ph:a->b*\<close> is handled as a wildcard.
\<close>

theorem ph_arrow_counterexample:
  "SPLIT_DATA_REGEX grammar ''ph:a->b->c'' = Some (''ph'', ''a->b->c'')
   \<and> REP (fst (snd (data_token grammar (entry ''happy'', aff_example, []) ''ph:a->b->c'')))
       = [RepPattern ''a'' ''b'']
   \<and> RepPattern ''a'' ''b->c''
       \<notin> set (REP (fst (snd (data_token grammar (entry ''happy'', aff_example, []) ''ph:a->b->c''))))
   \<and> RepPattern ''a->b'' ''c''
       \<notin> set (REP (fst (snd (data_token grammar (entry ''happy'', aff_example, []) ''ph:a->b->c''))))
   \<and> SPLIT_DATA_REGEX grammar ''ph:a->b*'' = Some (''ph'', ''a->b*'')
   \<and> REP (fst (snd (data_token grammar (entry ''happy'', aff_example, []) ''ph:a->b*'')))
       = [RepPattern ''a->'' ''happ'']"
  by code_simp

text \<open>
  C4, amended. For a \<^verbatim>\<open>ph:\<close> token whose value does not end with \<^verbatim>\<open>*\<close>: a value without
  an arrow appends the pattern (value, stem) to \<^verbatim>\<open>REP\<close> and adds the value to the
  alternate spellings; a value with an arrow appends the pattern made of the first two
  pieces of the value split at the arrows, which is \<open>(a, b)\<close> for the value \<^verbatim>\<open>a->b\<close> with
  a single arrow, and leaves the alternate spellings as they were.
\<close>

theorem ph_plain_and_arrow:
  assumes "SPLIT_DATA_REGEX C token = Some (''ph'', v)" and "\<not> endsWith v ''*''"
    and "data_token C (w, rs, sets) token = (w', rs', sets')"
  shows "(\<not> js_includes v ''->'' \<longrightarrow>
            REP rs' = REP rs @ [RepPattern v (stem w)]
          \<and> altSpellings w' = Some (Set_add (case altSpellings w of None \<Rightarrow> [] | Some s \<Rightarrow> s) v)
          \<and> v \<in> set (the (altSpellings w')))
       \<and> (js_includes v ''->'' \<longrightarrow>
            (\<exists>a b rest. js_split v ''->'' = a # b # rest \<and> REP rs' = REP rs @ [RepPattern a b])
          \<and> altSpellings w' = altSpellings w)
       \<and> (\<forall>a b. v = a @ ''->'' @ b \<and> \<not> js_includes a ''->'' \<and> \<not> js_includes b ''->'' \<longrightarrow>
            REP rs' = REP rs @ [RepPattern a b] \<and> altSpellings w' = altSpellings w)"
proof -
  let ?w1 = "fst (data_add v ''ph'' v (w, sets))"
  from assms(3) have w': "w' = fst (ph_directive v (?w1, rs))"
    and rs': "rs' = snd (ph_directive v (?w1, rs))"
    unfolding data_token_ph [OF assms(1)] by simp_all
  have plain: "REP rs' = REP rs @ [RepPattern v (stem w)]
          \<and> altSpellings w' = Some (Set_add (case altSpellings w of None \<Rightarrow> [] | Some s \<Rightarrow> s) v)
          \<and> v \<in> set (the (altSpellings w'))" if "\<not> js_includes v ''->''"
    unfolding w' rs' ph_directive_plain [OF assms(2) that]
    by (simp add: data_add_word Set_add_def)
  have arrow: "(\<exists>a b rest. js_split v ''->'' = a # b # rest \<and> REP rs' = REP rs @ [RepPattern a b])
          \<and> altSpellings w' = altSpellings w" if "js_includes v ''->''"
  proof -
    from ph_directive_arrow_pieces [OF assms(2) that, of ?w1 rs]
    obtain a b rest where "js_split v ''->'' = a # b # rest"
      and "ph_directive v (?w1, rs) = (?w1, rs\<lparr>REP := REP rs @ [RepPattern a b]\<rparr>)"
      by blast
    then show ?thesis
      unfolding w' rs' by (simp add: data_add_word)
  qed
  have single: "REP rs' = REP rs @ [RepPattern a b] \<and> altSpellings w' = altSpellings w"
    if "v = a @ ''->'' @ b" and "\<not> js_includes a ''->''" and "\<not> js_includes b ''->''" for a b
  proof -
    have inc: "js_includes v ''->''"
      unfolding that(1) by (rule js_includes_arrow)
    have "js_split v ''->'' = [a, b]"
      unfolding that(1) using that(2,3) by (rule js_split_arrow)
    with arrow [OF inc] show ?thesis by auto
  qed
  from plain arrow single show ?thesis by blast
qed

theorem ph_plain_and_arrow_witness:
  "SPLIT_DATA_REGEX grammar ''ph:wensday'' = Some (''ph'', ''wensday'')
   \<and> \<not> endsWith ''wensday'' ''*'' \<and> \<not> js_includes ''wensday'' ''->''
   \<and> REP (fst (snd (data_token grammar (entry ''wednesday'', aff_example, []) ''ph:wensday'')))
       = REP aff_example @ [RepPattern ''wensday'' (stem (entry ''wednesday''))]
   \<and> ''wensday''
       \<in> set (the (altSpellings (fst (data_token grammar (entry ''wednesday'', aff_example, []) ''ph:wensday''))))
   \<and> SPLIT_DATA_REGEX grammar ''ph:hepi->happi'' = Some (''ph'', ''hepi->happi'')
   \<and> \<not> endsWith ''hepi->happi'' ''*'' \<and> ''hepi->happi'' = ''hepi'' @ ''->'' @ ''happi''
   \<and> \<not> js_includes ''hepi'' ''->'' \<and> \<not> js_includes ''happi'' ''->''
   \<and> REP (fst (snd (data_token grammar (entry ''happy'', aff_example, []) ''ph:hepi->happi'')))
       = REP aff_example @ [RepPattern ''hepi'' ''happi'']
   \<and> altSpellings (fst (data_token grammar (entry ''happy'', aff_example, []) ''ph:hepi->happi''))
       = altSpellings (entry ''happy'')"
proof -
  have tok1: "SPLIT_DATA_REGEX grammar ''ph:wensday'' = Some (''ph'', ''wensday'')"
    by code_simp
  have plain1: "\<not> endsWith ''wensday'' ''*''" and plain2: "\<not> js_includes ''wensday'' ''->''"
    by code_simp+
  have run1: "data_token grammar (entry ''wednesday'', aff_example, []) ''ph:wensday'' =
      (fst (data_token grammar (entry ''wednesday'', aff_example, []) ''ph:wensday''),
       fst (snd (data_token grammar (entry ''wednesday'', aff_example, []) ''ph:wensday'')),
       snd (snd (data_token grammar (entry ''wednesday'', aff_example, []) ''ph:wensday'')))"
    by simp
  have tok2: "SPLIT_DATA_REGEX grammar ''ph:hepi->happi'' = Some (''ph'', ''hepi->happi'')"
    by code_simp
  have arrow1: "\<not> endsWith ''hepi->happi'' ''*''"
    and arrow2: "''hepi->happi'' = ''hepi'' @ ''->'' @ ''happi''"
    and arrow3: "\<not> js_includes ''hepi'' ''->''" and arrow4: "\<not> js_includes ''happi'' ''->''"
    by code_simp+
  have run2: "data_token grammar (entry ''happy'', aff_example, []) ''ph:hepi->happi'' =
      (fst (data_token grammar (entry ''happy'', aff_example, []) ''ph:hepi->happi''),
       fst (snd (data_token grammar (entry ''happy'', aff_example, []) ''ph:hepi->happi'')),
       snd (snd (data_token grammar (entry ''happy'', aff_example, []) ''ph:hepi->happi'')))"
    by simp
  from ph_plain_and_arrow [OF tok1 plain1 run1] ph_plain_and_arrow [OF tok2 arrow1 run2]
    tok1 plain1 plain2 tok2 arrow1 arrow2 arrow3 arrow4
  show ?thesis by blast
qed


text \<open>
  What the key:value branch does when \<^verbatim>\<open>data\<close> has no entry under the value: it stores a
  new set holding only this value under the key, whatever was stored under the key before.
\<close>

lemma data_add_fresh:
  assumes "Map_get (case data w of None \<Rightarrow> [] | Some m \<Rightarrow> m) v = None"
  shows "data_add v key v (w, sets) =
           (w\<lparr>data := Some (Map_set (case data w of None \<Rightarrow> [] | Some m \<Rightarrow> m) key (length sets))\<rparr>,
            sets @ [[v]])"
  using assms by (simp add: data_add_def alloc_def Let_def Set_add_def)

lemma Map_get_Map_set:
  "Map_get (Map_set m k v) k' = (if k' = k then Some v else Map_get m k')"
  by (induction m) (auto simp: Map_get_def)

text \<open>
  Hence, after a key:value token whose value is not a key of \<^verbatim>\<open>data\<close>, the set under the
  key holds this value alone: the values of earlier tokens of the key are no longer
  reachable from the key.
\<close>

lemma data_token_pair_fresh:
  assumes "SPLIT_DATA_REGEX C token = Some (key, v)" and "key \<noteq> ''ph''"
    and "Map_get (case data w of None \<Rightarrow> [] | Some m \<Rightarrow> m) v = None"
    and "data_token C (w, rs, sets) token = (w', rs', sets')"
  shows "Word_data_get w' sets' key = Some [v]"
proof -
  from assms(1,2,4) have "w' = fst (data_add v key v (w, sets))"
    and "sets' = snd (data_add v key v (w, sets))"
    by (auto simp: data_token_def split: prod.splits)
  then show ?thesis
    unfolding data_add_fresh [OF assms(3)]
    by (simp add: Word_data_get_def Map_get_Map_set)
qed

text \<open>
  C1 at the line \<^verbatim>\<open>cat is:a is:b\<close>: the set under \<^verbatim>\<open>is\<close> holds only \<^verbatim>\<open>b\<close>. At the line
  \<^verbatim>\<open>cat ab:xy xy:ab\<close> the keys \<^verbatim>\<open>ab\<close> and \<^verbatim>\<open>xy\<close> refer to one set that holds both values.
\<close>

theorem data_lookup_by_value:
  "(case Word_new grammar ''cat is:a is:b'' aff_example [] of
      Inl e \<Rightarrow> False
    | Inr (w, rs, sets) \<Rightarrow> Word_data_get w sets ''is'' = Some [''b''])
   \<and> (case Word_new grammar ''cat ab:xy xy:ab'' aff_example [] of
      Inl e \<Rightarrow> False
    | Inr (w, rs, sets) \<Rightarrow>
        Word_data_get w sets ''ab'' = Some [''xy'', ''ab'']
        \<and> Word_data_get w sets ''xy'' = Some [''xy'', ''ab'']
        \<and> Map_get (the (data w)) ''ab'' = Map_get (the (data w)) ''xy'')"
  by code_simp

text \<open>
  A numeric token that resolves to an alias held as a \<^verbatim>\<open>Set\<close> changes nothing: the
  \<^verbatim>\<open>for ... in\<close> loop has no property name to visit.
\<close>

lemma data_token_alias_Set:
  assumes "SPLIT_DATA_REGEX C token = None" and "is_digits token"
    and "js_get (AM rs) (int (parseInt token) - 1) = Some (JSSet components)"
  shows "data_token C (w, rs, sets) token = (w, rs, sets)"
  using assms by (simp add: data_token_def)

text \<open>
  C3 at the line \<^verbatim>\<open>cat 1\<close> with the alias table \<^verbatim>\<open>[{po:noun, ts:0}]\<close>: no data is recorded.
  Were the alias an array, the strings recorded under \<^verbatim>\<open>1\<close> would be its indices.
\<close>

theorem alias_components_not_recorded:
  "js_get (AM aff_example) (int (parseInt ''1'') - 1) = Some (JSSet [''po:noun'', ''ts:0''])
   \<and> (case Word_new grammar ''cat 1'' aff_example [] of
        Inl e \<Rightarrow> False
      | Inr (w, rs, sets) \<Rightarrow> data w = None \<and> Word_data_get w sets ''1'' = None)
   \<and> (case Word_new grammar ''cat 1'' (aff_example\<lparr>AM := [JSArray [''po:noun'', ''ts:0'']]\<rparr>) [] of
        Inl e \<Rightarrow> False
      | Inr (w, rs, sets) \<Rightarrow> Word_data_get w sets ''1'' = Some [''0'', ''1''])"
  by code_simp

section \<open>Properties of \<^verbatim>\<open>flagSets\<close>\<close>

lemma Set_add_distinct: "distinct (acc @ xs) \<Longrightarrow> foldl Set_add acc xs = acc @ xs"
  by (induction xs arbitrary: acc) (auto simp: Set_add_def)

lemma toSet_distinct: "distinct xs \<Longrightarrow> toSet xs = xs"
  using Set_add_distinct [of "[]" xs] by (simp add: toSet_def)

lemma set_foldl_Set_add: "set (foldl Set_add acc xs) = set acc \<union> set xs"
  by (induction xs arbitrary: acc) (auto simp: Set_add_def)

lemma distinct_foldl_Set_add: "distinct acc \<Longrightarrow> distinct (foldl Set_add acc xs)"
  by (induction xs arbitrary: acc) (auto simp: Set_add_def)

lemma set_toSet: "set (toSet xs) = set xs"
  by (simp add: toSet_def set_foldl_Set_add)

lemma distinct_toSet: "distinct (toSet xs)"
  by (simp add: toSet_def distinct_foldl_Set_add)

lemma alloc_all_eq:
  "alloc_all store xs = ([length store ..< length store + length xs], store @ xs)"
proof (induction xs arbitrary: store)
  case Nil
  show ?case by simp
next
  case (Cons x xs)
  have "[length store ..< length store + length (x # xs)]
      = length store # [Suc (length store) ..< Suc (length store) + length xs]"
    using upt_conv_Cons [of "length store" "length store + length (x # xs)"] by simp
  with Cons [of "store @ [x]"] show ?case
    by (simp add: alloc_def)
qed

text \<open>
  C7, as stated, fails: two words with the same flags give two elements, each a set
  object of its own holding these flags.
\<close>

theorem flagSets_counterexample:
  "flags word_cat = flags (word_cat\<lparr>stem := ''dog''\<rparr>)
   \<and> Word_flagSets [] [word_cat, word_cat\<lparr>stem := ''dog''\<rparr>]
       = ([0, 1], [[''A'', ''B''], [''A'', ''B'']])"
  by code_simp

text \<open>
  C7, amended. \<^verbatim>\<open>flagSets\<close> returns one new set object for each word that has flags, in
  the order of the words, holding the flags of that word; words without flags contribute
  nothing. The objects are pairwise different references, so sets with the same flags
  stay separate elements of the result, and the sets already in the store are unchanged.
\<close>

theorem flagSets_one_per_word:
  assumes "Word_flagSets store words = (rs, store')"
  shows "rs = [length store ..< length store + length (filter (\<lambda>word. flags word \<noteq> None) words)]
       \<and> distinct rs
       \<and> length rs = length (filter (\<lambda>word. flags word \<noteq> None) words)
       \<and> store' = store @ map (\<lambda>word. toSet (the (flags word)))
                           (filter (\<lambda>word. flags word \<noteq> None) words)
       \<and> map (\<lambda>r. set (store' ! r)) rs
           = map (\<lambda>word. set (the (flags word))) (filter (\<lambda>word. flags word \<noteq> None) words)"
proof -
  let ?ws = "filter (\<lambda>word. flags word \<noteq> None) words"
  let ?n = "length ?ws"
  from assms have rs: "rs = [length store ..< length store + ?n]"
    and store': "store' = store @ map (\<lambda>word. toSet (the (flags word))) ?ws"
    by (simp_all add: Word_flagSets_def alloc_all_eq toSet_distinct)
  have "map (\<lambda>r. set (store' ! r)) rs = map (\<lambda>word. set (the (flags word))) ?ws"
    unfolding rs store'
    by (rule nth_equalityI) (simp_all add: nth_append set_toSet)
  with rs store' show ?thesis by simp
qed

theorem flagSets_one_per_word_witness:
  "Word_flagSets [] [word_cat, entry ''dog'', word_cat\<lparr>stem := ''dog''\<rparr>]
     = ([0, 1], [[''A'', ''B''], [''A'', ''B'']])
   \<and> [0, 1] = [length ([] :: Flag list list) ..<
        length ([] :: Flag list list)
        + length (filter (\<lambda>word. flags word \<noteq> None) [word_cat, entry ''dog'', word_cat\<lparr>stem := ''dog''\<rparr>])]
   \<and> distinct [0 :: nat, 1]"
proof -
  have run: "Word_flagSets [] [word_cat, entry ''dog'', word_cat\<lparr>stem := ''dog''\<rparr>]
     = ([0, 1], [[''A'', ''B''], [''A'', ''B'']])"
    by code_simp
  show ?thesis
    by (rule conjI [OF run conjI [OF conjunct1 [OF flagSets_one_per_word [OF run]]
          conjunct1 [OF conjunct2 [OF flagSets_one_per_word [OF run]]]]])
qed


section \<open>Properties of \<^verbatim>\<open>forms\<close>\<close>

lemma startsWith_iff: "startsWith s t \<longleftrightarrow> (\<exists>u. s = t @ u)"
  by (metis append_eq_conv_conj startsWith_def)

lemma endsWith_iff: "endsWith s t \<longleftrightarrow> (\<exists>u. s = u @ t)"
proof
  assume "endsWith s t"
  then have "s = take (length s - length t) s @ t"
    by (metis append_take_drop_id endsWith_def)
  then show "\<exists>u. s = u @ t" ..
next
  assume "\<exists>u. s = u @ t"
  then show "endsWith s t" by (auto simp: endsWith_def)
qed

lemma set_applicable:
  assumes "flags w = Some fl"
  shows "set (applicable rules table w) =
           {a. \<exists>f \<in> set fl. \<exists>as. Map_get table f = Some as \<and> a \<in> set as
                 \<and> relevant (rules ! a) (stem w)}"
proof (rule set_eqI)
  fix a
  have "a \<in> set (applicable rules table w) \<longleftrightarrow>
          (\<exists>f \<in> set fl. map_of table f \<noteq> None \<and> a \<in> set (the (map_of table f)))
          \<and> relevant (rules ! a) (stem w)"
    using assms by (auto simp: applicable_def set_toSet Map_has_def Map_get_def)
  also have "\<dots> \<longleftrightarrow>
          (\<exists>f \<in> set fl. \<exists>as. Map_get table f = Some as \<and> a \<in> set as
             \<and> relevant (rules ! a) (stem w))"
    unfolding Map_get_def by force
  finally show "a \<in> set (applicable rules table w) \<longleftrightarrow>
          a \<in> {a. \<exists>f \<in> set fl. \<exists>as. Map_get table f = Some as \<and> a \<in> set as
                 \<and> relevant (rules ! a) (stem w)}"
    by simp
qed

lemma set_forms_cross:
  "(p, s) \<in> set (forms_cross rules P S) \<longleftrightarrow>
     p \<in> set P \<and> s \<in> set S \<and> crossproduct (rules ! s) \<and> crossproduct (rules ! p)"
  by (auto simp: forms_cross_def)

lemma suffix_form_eq:
  "suffix_form rules w s =
     take (length (stem w) - length (strip (rules ! s))) (stem w) @ add (rules ! s)"
  by (simp add: suffix_form_def slice_to_neg)

lemma prefix_form_eq:
  "prefix_form rules w p = add (rules ! p) @ drop (length (strip (rules ! p))) (stem w)"
  by (simp add: prefix_form_def slice_from)

lemma cross_form_eq:
  "cross_form rules w (p, s) =
     add (rules ! p)
     @ drop (length (strip (rules ! p)))
         (take (length (stem w) - length (strip (rules ! s))) (stem w))
     @ add (rules ! s)"
  by (simp add: cross_form_def slice_from slice_from_to_neg)

lemma Word_forms_eq:
  assumes "flags w = Some fl"
  shows "Word_forms rules rs w sim =
           stem w # map (suffix_form rules w) (forms_suffixes rules rs w sim)
           @ map (cross_form rules w)
               (forms_cross rules (forms_prefixes rules rs w sim) (forms_suffixes rules rs w sim))
           @ map (prefix_form rules w) (forms_prefixes rules rs w sim)"
  using assms by (simp add: Word_forms_def Let_def)

lemma Word_forms_no_flags: "flags w = None \<Longrightarrow> Word_forms rules rs w sim = [stem w]"
  by (simp add: Word_forms_def)

text \<open>
  C2, as stated, fails: with the prefix \<^verbatim>\<open>un\<close> not eligible for the cross product and an
  eligible suffix that adds and strips nothing, the crossed form of the pair is \<^verbatim>\<open>uncat\<close>,
  and \<^verbatim>\<open>uncat\<close> is in the result (as the form of the prefix alone).
\<close>

theorem forms_cross_counterexample:
  "flags word_cat = Some [''A'', ''B'']
   \<and> Map_get (PFX aff_example) ''A'' = Some [1] \<and> Map_get (SFX aff_example) ''B'' = Some [0]
   \<and> relevant ([rule_zero, rule_un_single] ! 1) (stem word_cat)
   \<and> relevant ([rule_zero, rule_un_single] ! 0) (stem word_cat)
   \<and> \<not> crossproduct ([rule_zero, rule_un_single] ! 1)
   \<and> add ([rule_zero, rule_un_single] ! 1) @ stem word_cat @ add ([rule_zero, rule_un_single] ! 0)
       = ''uncat''
   \<and> Word_forms [rule_zero, rule_un_single] aff_example word_cat None = [''cat'', ''cat'', ''uncat'']
   \<and> ''uncat'' \<in> set (Word_forms [rule_zero, rule_un_single] aff_example word_cat None)"
  by code_simp

text \<open>
  C2, amended. For an entry whose flags license a prefix and a suffix that both apply to
  the stem, the result of \<^verbatim>\<open>forms()\<close> is the stem, the suffix forms, the forms of the
  crossed pairs and the prefix forms. The pair (prefix, suffix) is among the crossed pairs
  exactly when both rules are eligible for the cross product, and its form is prefix-add
  + root + suffix-add, the root being the stem without the prefix strip-length at the
  start and the suffix strip-length at the end. When a rule of the pair is not eligible,
  that text is in the result only if it is also the stem, a single-affix form or the form
  of another crossed pair. The single-affix forms of both rules are in the result in
  either case.
\<close>

theorem forms_cross_product:
  assumes "flags w = Some fl"
    and "f \<in> set fl" and "Map_get (PFX rs) f = Some ps" and "p \<in> set ps"
    and "relevant (rules ! p) (stem w)"
    and "g \<in> set fl" and "Map_get (SFX rs) g = Some ss" and "s \<in> set ss"
    and "relevant (rules ! s) (stem w)"
  defines "P \<equiv> forms_prefixes rules rs w None"
    and "S \<equiv> forms_suffixes rules rs w None"
  shows "Word_forms rules rs w None =
           stem w # map (suffix_form rules w) S
           @ map (cross_form rules w) (forms_cross rules P S)
           @ map (prefix_form rules w) P
       \<and> ((p, s) \<in> set (forms_cross rules P S)
            \<longleftrightarrow> crossproduct (rules ! p) \<and> crossproduct (rules ! s))
       \<and> cross_form rules w (p, s) =
           add (rules ! p)
           @ drop (length (strip (rules ! p)))
               (take (length (stem w) - length (strip (rules ! s))) (stem w))
           @ add (rules ! s)
       \<and> (crossproduct (rules ! p) \<and> crossproduct (rules ! s)
            \<longrightarrow> cross_form rules w (p, s) \<in> set (Word_forms rules rs w None))
       \<and> (\<not> (crossproduct (rules ! p) \<and> crossproduct (rules ! s))
            \<and> cross_form rules w (p, s) \<in> set (Word_forms rules rs w None)
            \<longrightarrow> cross_form rules w (p, s) = stem w
              \<or> cross_form rules w (p, s) \<in> suffix_form rules w ` set S
              \<or> cross_form rules w (p, s) \<in> prefix_form rules w ` set P
              \<or> (\<exists>q \<in> set (forms_cross rules P S).
                    q \<noteq> (p, s) \<and> cross_form rules w q = cross_form rules w (p, s)))
       \<and> suffix_form rules w s \<in> set (Word_forms rules rs w None)
       \<and> prefix_form rules w p \<in> set (Word_forms rules rs w None)"
proof -
  have forms: "Word_forms rules rs w None =
           stem w # map (suffix_form rules w) S
           @ map (cross_form rules w) (forms_cross rules P S)
           @ map (prefix_form rules w) P"
    unfolding P_def S_def by (rule Word_forms_eq [OF assms(1)])
  have "p \<in> set (applicable rules (PFX rs) w)"
    unfolding set_applicable [OF assms(1)] using assms(2-5) by blast
  then have p: "p \<in> set P"
    by (simp add: P_def forms_prefixes_def truthy_def)
  have "s \<in> set (applicable rules (SFX rs) w)"
    unfolding set_applicable [OF assms(1)] using assms(6-9) by blast
  then have s: "s \<in> set S"
    by (simp add: S_def forms_suffixes_def truthy_def)
  have pair: "(p, s) \<in> set (forms_cross rules P S)
            \<longleftrightarrow> crossproduct (rules ! p) \<and> crossproduct (rules ! s)"
    using p s by (auto simp: set_forms_cross)
  have present: "cross_form rules w (p, s) \<in> set (Word_forms rules rs w None)"
    if "crossproduct (rules ! p) \<and> crossproduct (rules ! s)"
    using that pair unfolding forms by force
  have other: "cross_form rules w (p, s) = stem w
              \<or> cross_form rules w (p, s) \<in> suffix_form rules w ` set S
              \<or> cross_form rules w (p, s) \<in> prefix_form rules w ` set P
              \<or> (\<exists>q \<in> set (forms_cross rules P S).
                    q \<noteq> (p, s) \<and> cross_form rules w q = cross_form rules w (p, s))"
    if "\<not> (crossproduct (rules ! p) \<and> crossproduct (rules ! s))"
      and "cross_form rules w (p, s) \<in> set (Word_forms rules rs w None)"
  proof -
    from that(1) pair have out: "(p, s) \<notin> set (forms_cross rules P S)" by simp
    from that(2) consider "cross_form rules w (p, s) = stem w"
      | "cross_form rules w (p, s) \<in> suffix_form rules w ` set S"
      | "cross_form rules w (p, s) \<in> cross_form rules w ` set (forms_cross rules P S)"
      | "cross_form rules w (p, s) \<in> prefix_form rules w ` set P"
      unfolding forms by auto
    then show ?thesis
    proof cases
      case 3
      then obtain q where q: "q \<in> set (forms_cross rules P S)"
        and same: "cross_form rules w q = cross_form rules w (p, s)"
        by auto
      from q out have "q \<noteq> (p, s)" by auto
      with q same have "\<exists>q \<in> set (forms_cross rules P S).
                    q \<noteq> (p, s) \<and> cross_form rules w q = cross_form rules w (p, s)"
        by (intro bexI [of _ q]) simp_all
      then show ?thesis by simp
    qed simp_all
  qed
  have single: "suffix_form rules w s \<in> set (Word_forms rules rs w None)
       \<and> prefix_form rules w p \<in> set (Word_forms rules rs w None)"
    unfolding forms using p s by simp
  from forms pair present other single cross_form_eq [of rules w p s] show ?thesis
    by blast
qed


theorem forms_cross_product_witness:
  "flags word_cat = Some [''A'', ''B'']
   \<and> ''A'' \<in> set [''A'', ''B''] \<and> Map_get (PFX aff_example) ''A'' = Some [1] \<and> (1::nat) \<in> set [1]
   \<and> relevant ([rule_ly, rule_un] ! 1) (stem word_cat)
   \<and> ''B'' \<in> set [''A'', ''B''] \<and> Map_get (SFX aff_example) ''B'' = Some [0] \<and> (0::nat) \<in> set [0]
   \<and> relevant ([rule_ly, rule_un] ! 0) (stem word_cat)
   \<and> cross_form [rule_ly, rule_un] word_cat (1, 0) =
           add ([rule_ly, rule_un] ! 1)
           @ drop (length (strip ([rule_ly, rule_un] ! 1)))
               (take (length (stem word_cat) - length (strip ([rule_ly, rule_un] ! 0)))
                  (stem word_cat))
           @ add ([rule_ly, rule_un] ! 0)
   \<and> cross_form [rule_ly, rule_un] word_cat (1, 0) = ''uncatly''
   \<and> Word_forms [rule_ly, rule_un] aff_example word_cat None
       = [''cat'', ''catly'', ''uncatly'', ''uncat'']
   \<and> Word_forms [rule_ly, rule_un_single] aff_example word_cat None = [''cat'', ''catly'', ''uncat'']
   \<and> Word_forms [rule_ly\<lparr>crossproduct := False\<rparr>, rule_un] aff_example word_cat None
       = [''cat'', ''catly'', ''uncat'']"
proof -
  have h1: "flags word_cat = Some [''A'', ''B'']"
    by code_simp
  have h2: "''A'' \<in> set [''A'', ''B'']" and h6: "''B'' \<in> set [''A'', ''B'']"
    by simp_all
  have h3: "Map_get (PFX aff_example) ''A'' = Some [1]"
    and h7: "Map_get (SFX aff_example) ''B'' = Some [0]"
    by code_simp+
  have h4: "(1::nat) \<in> set [1]" and h8: "(0::nat) \<in> set [0]"
    by simp_all
  have h5: "relevant ([rule_ly, rule_un] ! 1) (stem word_cat)"
    and h9: "relevant ([rule_ly, rule_un] ! 0) (stem word_cat)"
    by code_simp+
  note all = forms_cross_product [OF h1 h2 h3 h4 h5 h6 h7 h8 h9]
  have shape: "cross_form [rule_ly, rule_un] word_cat (1, 0) =
           add ([rule_ly, rule_un] ! 1)
           @ drop (length (strip ([rule_ly, rule_un] ! 1)))
               (take (length (stem word_cat) - length (strip ([rule_ly, rule_un] ! 0)))
                  (stem word_cat))
           @ add ([rule_ly, rule_un] ! 0)"
    by (rule all [THEN conjunct2, THEN conjunct2, THEN conjunct1])
  have vals: "cross_form [rule_ly, rule_un] word_cat (1, 0) = ''uncatly''
   \<and> Word_forms [rule_ly, rule_un] aff_example word_cat None
       = [''cat'', ''catly'', ''uncatly'', ''uncat'']
   \<and> Word_forms [rule_ly, rule_un_single] aff_example word_cat None = [''cat'', ''catly'', ''uncat'']
   \<and> Word_forms [rule_ly\<lparr>crossproduct := False\<rparr>, rule_un] aff_example word_cat None
       = [''cat'', ''catly'', ''uncat'']"
    by code_simp
  show ?thesis
    by (rule conjI [OF h1 conjI [OF h2 conjI [OF h3 conjI [OF h4 conjI [OF h5 conjI [OF h6
          conjI [OF h7 conjI [OF h8 conjI [OF h9 conjI [OF shape vals]]]]]]]]]])
qed

text \<open>
  C6. For a non-empty argument, the first form is the stem, and every other form is
  built from a suffix that applies to the word and whose add-text ends the argument, from
  a prefix that applies and whose add-text starts the argument, or from such a prefix and
  such a suffix together. The forms of every such suffix and of every such prefix are
  kept; when the word has no such suffix and no such prefix, the result is the stem alone.
\<close>

theorem forms_similarTo_prunes:
  assumes "similarTo \<noteq> []"
  shows "hd (Word_forms rules rs w (Some similarTo)) = stem w
       \<and> (\<forall>x \<in> set (tl (Word_forms rules rs w (Some similarTo))).
            (\<exists>s \<in> set (applicable rules (SFX rs) w).
                endsWith similarTo (add (rules ! s)) \<and> x = suffix_form rules w s)
          \<or> (\<exists>p \<in> set (applicable rules (PFX rs) w).
                startsWith similarTo (add (rules ! p)) \<and> x = prefix_form rules w p)
          \<or> (\<exists>p \<in> set (applicable rules (PFX rs) w). \<exists>s \<in> set (applicable rules (SFX rs) w).
                startsWith similarTo (add (rules ! p)) \<and> endsWith similarTo (add (rules ! s))
                \<and> x = cross_form rules w (p, s)))
       \<and> (flags w \<noteq> None \<longrightarrow>
            (\<forall>s \<in> set (applicable rules (SFX rs) w). endsWith similarTo (add (rules ! s)) \<longrightarrow>
                suffix_form rules w s \<in> set (Word_forms rules rs w (Some similarTo)))
          \<and> (\<forall>p \<in> set (applicable rules (PFX rs) w). startsWith similarTo (add (rules ! p)) \<longrightarrow>
                prefix_form rules w p \<in> set (Word_forms rules rs w (Some similarTo))))
       \<and> (flags w = None
            \<or> (\<forall>s \<in> set (applicable rules (SFX rs) w). \<not> endsWith similarTo (add (rules ! s)))
              \<and> (\<forall>p \<in> set (applicable rules (PFX rs) w). \<not> startsWith similarTo (add (rules ! p)))
            \<longrightarrow> Word_forms rules rs w (Some similarTo) = [stem w])"
proof (cases "flags w")
  case None
  then show ?thesis by (simp add: Word_forms_no_flags)
next
  case (Some fl)
  let ?S = "forms_suffixes rules rs w (Some similarTo)"
  let ?P = "forms_prefixes rules rs w (Some similarTo)"
  have S: "s \<in> set ?S \<longleftrightarrow>
      s \<in> set (applicable rules (SFX rs) w) \<and> endsWith similarTo (add (rules ! s))" for s
    using assms by (auto simp: forms_suffixes_def truthy_def)
  have P: "p \<in> set ?P \<longleftrightarrow>
      p \<in> set (applicable rules (PFX rs) w) \<and> startsWith similarTo (add (rules ! p))" for p
    using assms by (auto simp: forms_prefixes_def truthy_def)
  have first: "hd (Word_forms rules rs w (Some similarTo)) = stem w"
    by (simp add: Word_forms_eq [OF Some])
  have only: "(\<exists>s \<in> set (applicable rules (SFX rs) w).
                endsWith similarTo (add (rules ! s)) \<and> x = suffix_form rules w s)
          \<or> (\<exists>p \<in> set (applicable rules (PFX rs) w).
                startsWith similarTo (add (rules ! p)) \<and> x = prefix_form rules w p)
          \<or> (\<exists>p \<in> set (applicable rules (PFX rs) w). \<exists>s \<in> set (applicable rules (SFX rs) w).
                startsWith similarTo (add (rules ! p)) \<and> endsWith similarTo (add (rules ! s))
                \<and> x = cross_form rules w (p, s))"
    if "x \<in> set (tl (Word_forms rules rs w (Some similarTo)))" for x
  proof -
    from that consider s where "s \<in> set ?S" and "x = suffix_form rules w s"
      | p s where "(p, s) \<in> set (forms_cross rules ?P ?S)" and "x = cross_form rules w (p, s)"
      | p where "p \<in> set ?P" and "x = prefix_form rules w p"
      unfolding Word_forms_eq [OF Some] by auto
    then show ?thesis
    proof cases
      case 1
      then show ?thesis using S by blast
    next
      case 2
      then have "p \<in> set ?P" and "s \<in> set ?S"
        by (simp_all add: set_forms_cross)
      with 2 show ?thesis using S P by blast
    next
      case 3
      then show ?thesis using P by blast
    qed
  qed
  have kept_s: "suffix_form rules w s \<in> set (Word_forms rules rs w (Some similarTo))"
    if "s \<in> set (applicable rules (SFX rs) w)" and "endsWith similarTo (add (rules ! s))" for s
    using that S [of s] by (simp add: Word_forms_eq [OF Some])
  have kept_p: "prefix_form rules w p \<in> set (Word_forms rules rs w (Some similarTo))"
    if "p \<in> set (applicable rules (PFX rs) w)" and "startsWith similarTo (add (rules ! p))" for p
    using that P [of p] by (simp add: Word_forms_eq [OF Some])
  have none: "Word_forms rules rs w (Some similarTo) = [stem w]"
    if "\<forall>s \<in> set (applicable rules (SFX rs) w). \<not> endsWith similarTo (add (rules ! s))"
      and "\<forall>p \<in> set (applicable rules (PFX rs) w). \<not> startsWith similarTo (add (rules ! p))"
  proof -
    have "?S = []"
      using that(1) assms by (simp add: forms_suffixes_def truthy_def filter_empty_conv)
    moreover have "?P = []"
      using that(2) assms by (simp add: forms_prefixes_def truthy_def filter_empty_conv)
    ultimately show ?thesis
      by (simp add: Word_forms_eq [OF Some] forms_cross_def)
  qed
  show ?thesis
  proof (intro conjI)
    show "hd (Word_forms rules rs w (Some similarTo)) = stem w"
      by (rule first)
    show "\<forall>x \<in> set (tl (Word_forms rules rs w (Some similarTo))).
            (\<exists>s \<in> set (applicable rules (SFX rs) w).
                endsWith similarTo (add (rules ! s)) \<and> x = suffix_form rules w s)
          \<or> (\<exists>p \<in> set (applicable rules (PFX rs) w).
                startsWith similarTo (add (rules ! p)) \<and> x = prefix_form rules w p)
          \<or> (\<exists>p \<in> set (applicable rules (PFX rs) w). \<exists>s \<in> set (applicable rules (SFX rs) w).
                startsWith similarTo (add (rules ! p)) \<and> endsWith similarTo (add (rules ! s))
                \<and> x = cross_form rules w (p, s))"
      by (rule ballI) (rule only)
    show "flags w \<noteq> None \<longrightarrow>
            (\<forall>s \<in> set (applicable rules (SFX rs) w). endsWith similarTo (add (rules ! s)) \<longrightarrow>
                suffix_form rules w s \<in> set (Word_forms rules rs w (Some similarTo)))
          \<and> (\<forall>p \<in> set (applicable rules (PFX rs) w). startsWith similarTo (add (rules ! p)) \<longrightarrow>
                prefix_form rules w p \<in> set (Word_forms rules rs w (Some similarTo)))"
      using kept_s kept_p by blast
    show "flags w = None
            \<or> (\<forall>s \<in> set (applicable rules (SFX rs) w). \<not> endsWith similarTo (add (rules ! s)))
              \<and> (\<forall>p \<in> set (applicable rules (PFX rs) w). \<not> startsWith similarTo (add (rules ! p)))
            \<longrightarrow> Word_forms rules rs w (Some similarTo) = [stem w]"
      using none Some by simp
  qed
qed

theorem forms_similarTo_prunes_witness:
  "''uncatly'' \<noteq> []
   \<and> hd (Word_forms [rule_ly, rule_un] aff_example word_cat (Some ''uncatly'')) = stem word_cat
   \<and> Word_forms [rule_ly, rule_un] aff_example word_cat (Some ''uncatly'')
       = [''cat'', ''catly'', ''uncatly'', ''uncat'']
   \<and> Word_forms [rule_ly, rule_un] aff_example word_cat (Some ''dog'') = [''cat'']
   \<and> Word_forms [rule_ly, rule_un] aff_example word_cat (Some ''only'') = [''cat'', ''catly'']"
proof -
  have ne: "''uncatly'' \<noteq> []"
    by simp
  have first: "hd (Word_forms [rule_ly, rule_un] aff_example word_cat (Some ''uncatly''))
      = stem word_cat"
    by (rule conjunct1 [OF forms_similarTo_prunes [OF ne]])
  have vals: "Word_forms [rule_ly, rule_un] aff_example word_cat (Some ''uncatly'')
       = [''cat'', ''catly'', ''uncatly'', ''uncat'']
   \<and> Word_forms [rule_ly, rule_un] aff_example word_cat (Some ''dog'') = [''cat'']
   \<and> Word_forms [rule_ly, rule_un] aff_example word_cat (Some ''only'') = [''cat'', ''catly'']"
    by code_simp
  show ?thesis
    by (rule conjI [OF ne conjI [OF first vals]])
qed

end
